theory Spec2Isabelle
  imports Complex_Main "HOL-Library.Sublist"
begin

section \<open>Data model (src/types/index.ts)\<close>

text \<open>
  A JavaScript string is a sequence of UTF-16 code units, each given by its number. \<open>str\<close>
  turns a literal of ASCII characters into such a sequence.
\<close>

type_synonym jsstring = "nat list"

definition str :: "string \<Rightarrow> jsstring" where
  "str s = map of_char s"

text \<open>
  The \<^verbatim>\<open>Snippet\<close> interface. JavaScript numbers that hold identifiers and counters are
  integers; the optional field \<^verbatim>\<open>description?: string\<close> is an option, \<open>None\<close> standing for
  \<^verbatim>\<open>undefined\<close>. The field \<^verbatim>\<open>id\<close> is called \<open>snippetId\<close>, because \<open>id\<close> is the identity
  function of HOL.
\<close>

record snippet =
  snippetId :: int
  userId :: int
  title :: jsstring
  code :: jsstring
  language :: jsstring
  description :: "jsstring option"
  tags :: "jsstring list"
  isPublic :: bool
  viewCount :: int
  createdAt :: jsstring
  updatedAt :: jsstring

section \<open>Primitives of the language used by the filter\<close>

text \<open>
  \<^verbatim>\<open>String.prototype.includes\<close>: the argument occurs as a contiguous block at some position
  of the receiver. The empty string occurs in every string.
\<close>

fun includes_str :: "'a list \<Rightarrow> 'a list \<Rightarrow> bool" where
  "includes_str [] q = (q = [])"
| "includes_str (c # s) q = (prefix q (c # s) \<or> includes_str s q)"

text \<open>
  \<^verbatim>\<open>String.prototype.toLowerCase\<close> is a built-in of the runtime, driven by the case tables of
  Unicode; it is not code of the repository. The functions below take it as their first
  argument \<open>toLowerCase\<close>, so that what is proved of them for every such argument holds of
  the code whatever the tables are.

  Calling a method on \<^verbatim>\<open>undefined\<close> throws a \<^verbatim>\<open>TypeError\<close>. \<open>call_toLowerCase\<close> is the call
  \<^verbatim>\<open>recv.toLowerCase()\<close> on a receiver that may be undefined. \<open>optional_chain\<close> is the
  operator \<^verbatim>\<open>recv?.rest\<close>: on an undefined receiver the whole chain is \<^verbatim>\<open>undefined\<close> and the
  rest is not evaluated, otherwise the rest is evaluated on the receiver.
\<close>

datatype js_error = TypeError

definition call_toLowerCase ::
  "(jsstring \<Rightarrow> jsstring) \<Rightarrow> jsstring option \<Rightarrow> js_error + jsstring" where
  "call_toLowerCase toLowerCase recv =
     (case recv of None \<Rightarrow> Inl TypeError | Some s \<Rightarrow> Inr (toLowerCase s))"

definition bind_js :: "js_error + 'a \<Rightarrow> ('a \<Rightarrow> js_error + 'b) \<Rightarrow> js_error + 'b" where
  "bind_js m f = (case m of Inl e \<Rightarrow> Inl e | Inr x \<Rightarrow> f x)"

definition optional_chain ::
  "'a option \<Rightarrow> ('a option \<Rightarrow> js_error + 'b) \<Rightarrow> js_error + 'b option" where
  "optional_chain recv rest =
     (case recv of
        None \<Rightarrow> Inr None
      | Some x \<Rightarrow> bind_js (rest (Some x)) (\<lambda>y. Inr (Some y)))"

text \<open>
  \<^verbatim>\<open>Array.prototype.filter\<close> with a callback that may throw: the first exception ends the
  call, otherwise the elements with a true result are kept in order.
\<close>

fun filter_js :: "('a \<Rightarrow> js_error + bool) \<Rightarrow> 'a list \<Rightarrow> js_error + 'a list" where
  "filter_js p [] = Inr []"
| "filter_js p (x # xs) =
     bind_js (p x) (\<lambda>keep.
     bind_js (filter_js p xs) (\<lambda>rest.
     Inr (if keep then x # rest else rest)))"

section \<open>Filter composition (src/app/(dashboard)/snippets/page.tsx, filteredSnippets)\<close>

text \<open>
  The three callbacks handed to \<^verbatim>\<open>Array.prototype.filter\<close>. \<open>textMatch\<close> is
  \<^verbatim>\<open>a || b || c\<close>, evaluated from the left and stopping at the first true operand:
  \<^verbatim>\<open>a\<close> and \<^verbatim>\<open>c\<close> call \<^verbatim>\<open>toLowerCase\<close> on the fields \<^verbatim>\<open>title\<close> and \<^verbatim>\<open>code\<close>, which the
  interface declares as strings; \<^verbatim>\<open>b\<close> is
  \<^verbatim>\<open>snippet.description?.toLowerCase().includes(...)\<close>, whose value \<^verbatim>\<open>undefined\<close> counts as
  false.
\<close>

definition textMatch ::
  "(jsstring \<Rightarrow> jsstring) \<Rightarrow> jsstring \<Rightarrow> snippet \<Rightarrow> js_error + bool" where
  "textMatch toLowerCase debouncedSearch s =
     bind_js
       (bind_js (call_toLowerCase toLowerCase (Some (title s))) (\<lambda>t.
        bind_js (call_toLowerCase toLowerCase (Some debouncedSearch)) (\<lambda>q.
        Inr (includes_str t q))))
       (\<lambda>a. if a then Inr True
            else bind_js
              (optional_chain (description s) (\<lambda>recv.
                 bind_js (call_toLowerCase toLowerCase recv) (\<lambda>d.
                 bind_js (call_toLowerCase toLowerCase (Some debouncedSearch)) (\<lambda>q.
                 Inr (includes_str d q)))))
              (\<lambda>b. if (case b of None \<Rightarrow> False | Some v \<Rightarrow> v) then Inr True
                   else bind_js (call_toLowerCase toLowerCase (Some (code s))) (\<lambda>c.
                        bind_js (call_toLowerCase toLowerCase (Some debouncedSearch)) (\<lambda>q.
                        Inr (includes_str c q)))))"

definition languageMatch :: "jsstring \<Rightarrow> snippet \<Rightarrow> js_error + bool" where
  "languageMatch selectedLanguage s = Inr (language s = selectedLanguage)"

definition tagMatch :: "jsstring list \<Rightarrow> snippet \<Rightarrow> js_error + bool" where
  "tagMatch selectedTags s = Inr (list_ex (\<lambda>tag. tag \<in> set (tags s)) selectedTags)"

text \<open>
  The body of the \<^verbatim>\<open>useMemo\<close>: three guarded reassignments of \<^verbatim>\<open>filtered\<close>. A string is
  truthy when it is not empty.
\<close>

definition filteredSnippets ::
  "(jsstring \<Rightarrow> jsstring) \<Rightarrow> snippet list \<Rightarrow> jsstring \<Rightarrow> jsstring \<Rightarrow> jsstring list
     \<Rightarrow> js_error + snippet list" where
  "filteredSnippets toLowerCase snippets debouncedSearch selectedLanguage selectedTags =
     bind_js (if debouncedSearch \<noteq> []
              then filter_js (textMatch toLowerCase debouncedSearch) snippets
              else Inr snippets) (\<lambda>filtered1.
     bind_js (if selectedLanguage \<noteq> str ''all''
              then filter_js (languageMatch selectedLanguage) filtered1
              else Inr filtered1) (\<lambda>filtered2.
     (if length selectedTags > 0
      then filter_js (tagMatch selectedTags) filtered2
      else Inr filtered2)))"

section \<open>Case-insensitive substrings, in the specification's words\<close>








section \<open>A fragment of the case tables, for evaluating examples\<close>

text \<open>
  \<open>toLowerCase_fragment\<close> is \<^verbatim>\<open>String.prototype.toLowerCase\<close> on text whose code units are
  below 256 (ASCII and Latin-1) or Greek letters, the capitals alpha to omega (913..937) and
  the small ones (945..969); outside this range it says nothing about the runtime. The capitals of the range lie 32
  places below their small letters. The capital sigma (931) is context-sensitive (the rule
  Final_Sigma of the tables): it becomes the final small sigma (962) when a cased letter
  comes before it and no cased letter after it, case-ignorable characters being skipped on
  both sides, and the small sigma (963) otherwise.
\<close>

definition cased_unit :: "nat \<Rightarrow> bool" where
  "cased_unit c =
     ((65 \<le> c \<and> c \<le> 90) \<or> (97 \<le> c \<and> c \<le> 122) \<or> c = 170 \<or> c = 181 \<or> c = 186
      \<or> (192 \<le> c \<and> c \<le> 214) \<or> (216 \<le> c \<and> c \<le> 246) \<or> (248 \<le> c \<and> c \<le> 255)
      \<or> (913 \<le> c \<and> c \<le> 929) \<or> (931 \<le> c \<and> c \<le> 937) \<or> (945 \<le> c \<and> c \<le> 969))"

definition case_ignorable_unit :: "nat \<Rightarrow> bool" where
  "case_ignorable_unit c = (c \<in> set [39, 46, 58, 94, 96, 168, 173, 175, 180, 183, 184])"

definition lower_unit :: "nat \<Rightarrow> nat" where
  "lower_unit c =
     (if (65 \<le> c \<and> c \<le> 90) \<or> (192 \<le> c \<and> c \<le> 214) \<or> (216 \<le> c \<and> c \<le> 222)
         \<or> (913 \<le> c \<and> c \<le> 929) \<or> (932 \<le> c \<and> c \<le> 937)
      then c + 32 else c)"

fun followed_by_cased :: "jsstring \<Rightarrow> bool" where
  "followed_by_cased [] = False"
| "followed_by_cased (c # cs) =
     (if case_ignorable_unit c then followed_by_cased cs else cased_unit c)"

text \<open>
  The first argument of \<open>lower_units\<close> tells whether a cased letter comes before the rest of
  the text, case-ignorable characters skipped.
\<close>

fun lower_units :: "bool \<Rightarrow> jsstring \<Rightarrow> jsstring" where
  "lower_units before [] = []"
| "lower_units before (c # cs) =
     (if c = 931 then (if before \<and> \<not> followed_by_cased cs then 962 else 963)
      else lower_unit c)
     # lower_units (if case_ignorable_unit c then before else cased_unit c) cs"

definition toLowerCase_fragment :: "jsstring \<Rightarrow> jsstring" where
  "toLowerCase_fragment s = lower_units False s"

text \<open>
  The three conditions of the pipeline on one item, as a predicate: what the three stages
  test when no call throws.
\<close>

definition keeps ::
  "(jsstring \<Rightarrow> jsstring) \<Rightarrow> jsstring \<Rightarrow> jsstring \<Rightarrow> jsstring list \<Rightarrow> snippet \<Rightarrow> bool" where
  "keeps toLowerCase q lang sel s =
     ((q = [] \<or> includes_str (toLowerCase (title s)) (toLowerCase q)
       \<or> (case description s of
             None \<Rightarrow> False
           | Some d \<Rightarrow> includes_str (toLowerCase d) (toLowerCase q))
       \<or> includes_str (toLowerCase (code s)) (toLowerCase q))
      \<and> (lang = str ''all'' \<or> language s = lang)
      \<and> (sel = [] \<or> (\<exists>t \<in> set sel. t \<in> set (tags s))))"

text \<open>Sample items of the specification's scenarios.\<close>

definition blank :: snippet where
  "blank = \<lparr>snippetId = 0, userId = 1, title = [], code = [], language = str ''javascript'',
            description = None, tags = [], isPublic = False, viewCount = 0,
            createdAt = [], updatedAt = []\<rparr>"

definition item_foobar :: snippet where
  "item_foobar = blank\<lparr>snippetId := 1, title := str ''Foobar'', description := Some []\<rparr>"

definition item_bar :: snippet where
  "item_bar = blank\<lparr>snippetId := 2, title := str ''Bar'',
                    description := Some (str ''has foo inside'')\<rparr>"

definition item_vue :: snippet where
  "item_vue = blank\<lparr>snippetId := 3, title := str ''V'', tags := [str ''vue'']\<rparr>"

definition item_hooks :: snippet where
  "item_hooks = blank\<lparr>snippetId := 4, title := str ''H'',
                      tags := [str ''hooks'', str ''testing'']\<rparr>"

definition item_nodesc :: snippet where
  "item_nodesc = blank\<lparr>snippetId := 5, title := str ''Food'', code := str ''x = 1''\<rparr>"



section \<open>Pagination engine (src/hooks/index.ts, usePagination)\<close>

text \<open>
  \<^verbatim>\<open>Array.prototype.slice(start, end)\<close> on integer arguments: a negative index counts from
  the end, both indices are cut to the range of the array, and an empty range gives the
  empty array.
\<close>

definition slice :: "'a list \<Rightarrow> int \<Rightarrow> int \<Rightarrow> 'a list" where
  "slice xs start fin =
     (let len = int (length xs);
          k = (if start < 0 then max (len + start) 0 else min start len);
          final = (if fin < 0 then max (len + fin) 0 else min fin len)
      in take (nat (final - k)) (drop (nat k) xs))"

text \<open>
  What one render of the hook returns. The third argument of \<open>usePagination\<close> is the content
  of the state cell \<^verbatim>\<open>useState(1)\<close> at that render; page numbers and the page size are
  integers. \<^verbatim>\<open>Math.ceil(items.length / itemsPerPage)\<close> is the ceiling of the quotient taken
  in the reals (for a page size of zero the quotient of the source is not a number; the
  properties below are about positive page sizes).
\<close>

record 'a pagination =
  currentPage :: int
  totalPages :: int
  paginatedItems :: "'a list"
  hasNextPage :: bool
  hasPrevPage :: bool

definition usePagination :: "'a list \<Rightarrow> int \<Rightarrow> int \<Rightarrow> 'a pagination" where
  "usePagination items itemsPerPage page =
     (let total = \<lceil>real (length items) / real_of_int itemsPerPage\<rceil>;
          startIndex = (page - 1) * itemsPerPage;
          endIndex = startIndex + itemsPerPage
      in \<lparr>currentPage = page,
          totalPages = total,
          paginatedItems = slice items startIndex endIndex,
          hasNextPage = (page < total),
          hasPrevPage = (page > 1)\<rparr>)"

text \<open>
  The three callbacks. Each closes over \<^verbatim>\<open>totalPages\<close> (and \<^verbatim>\<open>currentPage\<close>) of the render
  that created it and writes the state cell; the functions return the value written.
\<close>

definition goToPage :: "'a pagination \<Rightarrow> int \<Rightarrow> int" where
  "goToPage view page = max 1 (min page (totalPages view))"

definition nextPage :: "'a pagination \<Rightarrow> int" where
  "nextPage view = goToPage view (currentPage view + 1)"

definition prevPage :: "'a pagination \<Rightarrow> int" where
  "prevPage view = goToPage view (currentPage view - 1)"

text \<open>
  The hook over time: its caller renders it with a list, and between renders either one of
  the callbacks is invoked or the caller passes another list (for the snippets page, the
  result of a new filter). The state is the list of the latest render and the state cell.
  Passing another list runs nothing but the body of the hook, which does not write the cell.
\<close>

datatype 'a pagination_event =
    GoToPage int
  | NextPage
  | PrevPage
  | SetItems "'a list"

fun pagination_step :: "int \<Rightarrow> 'a list \<times> int \<Rightarrow> 'a pagination_event \<Rightarrow> 'a list \<times> int" where
  "pagination_step itemsPerPage (items, page) (GoToPage n) =
     (items, goToPage (usePagination items itemsPerPage page) n)"
| "pagination_step itemsPerPage (items, page) NextPage =
     (items, nextPage (usePagination items itemsPerPage page))"
| "pagination_step itemsPerPage (items, page) PrevPage =
     (items, prevPage (usePagination items itemsPerPage page))"
| "pagination_step itemsPerPage (items, page) (SetItems items') = (items', page)"

definition pagination_run ::
  "int \<Rightarrow> 'a list \<Rightarrow> 'a pagination_event list \<Rightarrow> 'a list \<times> int" where
  "pagination_run itemsPerPage items events =
     foldl (pagination_step itemsPerPage) (items, 1) events"

definition pagination_view :: "int \<Rightarrow> 'a list \<times> int \<Rightarrow> 'a pagination" where
  "pagination_view itemsPerPage st = usePagination (fst st) itemsPerPage (snd st)"

fun is_navigation :: "'a pagination_event \<Rightarrow> bool" where
  "is_navigation (SetItems items') = False"
| "is_navigation e = True"

definition ten_items :: "nat list" where
  "ten_items = [1, 2, 3, 4, 5, 6, 7, 8, 9, 10]"

definition three_items :: "nat list" where
  "three_items = [2, 5, 7]"

text \<open>
  The specification's scenario: ten items at page size 9, the second page selected, then a
  filter leaves three items.
\<close>

definition shrink_scenario :: "nat list \<times> int" where
  "shrink_scenario = pagination_run 9 ten_items [GoToPage 2, SetItems three_items]"

section \<open>Orchestration (src/app/(dashboard)/snippets/page.tsx)\<close>

text \<open>
  The state of the page that the handlers touch, with two observation logs: the toasts
  emitted and the requests sent to the REST client \<^verbatim>\<open>snippetsApi\<close>. The body of a create or
  update request does not influence the list handling and is kept abstract (\<open>'d\<close>).
\<close>

datatype toast = ToastSuccess string | ToastError string

datatype api_error = NetworkError | ValidationError | ServerError | SessionExpiredError

datatype 'd api_call = ApiGetAll | ApiCreate 'd | ApiUpdate int 'd | ApiDelete int

record 'd page_state =
  snippets :: "snippet list"
  isLoading :: bool
  isDialogOpen :: bool
  isEditDialogOpen :: bool
  isSubmitting :: bool
  toasts :: "toast list"
  requests :: "'d api_call list"

text \<open>
  An \<^verbatim>\<open>async\<close> function is a state transformer whose promise is rejected (\<open>Inl\<close>) or
  fulfilled (\<open>Inr\<close>). The outcome of every call of the external API is a parameter of the
  handler that awaits it.
\<close>

type_synonym ('d, 'a) async = "'d page_state \<Rightarrow> (api_error + 'a) \<times> 'd page_state"

definition resolve :: "'a \<Rightarrow> ('d, 'a) async" where
  "resolve x st = (Inr x, st)"

definition bind_async :: "('d, 'a) async \<Rightarrow> ('a \<Rightarrow> ('d, 'b) async) \<Rightarrow> ('d, 'b) async" where
  "bind_async m f st =
     (case m st of (Inl e, st') \<Rightarrow> (Inl e, st') | (Inr x, st') \<Rightarrow> f x st')"

definition try_catch :: "('d, 'a) async \<Rightarrow> (api_error \<Rightarrow> ('d, 'a) async) \<Rightarrow> ('d, 'a) async" where
  "try_catch body handler st =
     (case body st of (Inl e, st') \<Rightarrow> handler e st' | (Inr x, st') \<Rightarrow> (Inr x, st'))"

definition try_finally :: "('d, 'a) async \<Rightarrow> ('d, unit) async \<Rightarrow> ('d, 'a) async" where
  "try_finally body finalizer st =
     (case body st of (r, st') \<Rightarrow>
        (case finalizer st' of (Inl e, st'') \<Rightarrow> (Inl e, st'') | (Inr u, st'') \<Rightarrow> (r, st'')))"

definition not_awaited :: "('d, 'a) async \<Rightarrow> ('d, unit) async" where
  \<comment> \<open>a call of an async function whose promise is dropped; the model runs it to its end\<close>
  "not_awaited m st = (Inr (), snd (m st))"

definition await_api :: "'d api_call \<Rightarrow> api_error + 'a \<Rightarrow> ('d, 'a) async" where
  "await_api call outcome st = (outcome, st\<lparr>requests := requests st @ [call]\<rparr>)"

definition setSnippets :: "(snippet list \<Rightarrow> snippet list) \<Rightarrow> ('d, unit) async" where
  "setSnippets f st = (Inr (), st\<lparr>snippets := f (snippets st)\<rparr>)"

definition setIsLoading :: "bool \<Rightarrow> ('d, unit) async" where
  "setIsLoading b st = (Inr (), st\<lparr>isLoading := b\<rparr>)"

definition setIsSubmitting :: "bool \<Rightarrow> ('d, unit) async" where
  "setIsSubmitting b st = (Inr (), st\<lparr>isSubmitting := b\<rparr>)"

definition closeDialog :: "('d, unit) async" where
  "closeDialog st = (Inr (), st\<lparr>isDialogOpen := False\<rparr>)"

definition closeEdit :: "('d, unit) async" where
  "closeEdit st = (Inr (), st\<lparr>isEditDialogOpen := False\<rparr>)"

definition toast_success :: "string \<Rightarrow> ('d, unit) async" where
  "toast_success msg st = (Inr (), st\<lparr>toasts := toasts st @ [ToastSuccess msg]\<rparr>)"

definition toast_error :: "string \<Rightarrow> ('d, unit) async" where
  "toast_error msg st = (Inr (), st\<lparr>toasts := toasts st @ [ToastError msg]\<rparr>)"

definition fetchSnippets :: "api_error + snippet list \<Rightarrow> ('d, unit) async" where
  "fetchSnippets getAll_outcome =
     try_finally
       (try_catch
          (bind_async (setIsLoading True) (\<lambda>_.
           bind_async (await_api ApiGetAll getAll_outcome) (\<lambda>data.
           setSnippets (\<lambda>_. data))))
          (\<lambda>error. toast_error ''Failed to load snippets''))
       (setIsLoading False)"

text \<open>
  \<open>handleDelete\<close>: the first argument is the answer of the browser's \<^verbatim>\<open>confirm\<close> dialog, the
  second the outcome of \<^verbatim>\<open>snippetsApi.delete(id)\<close>.
\<close>

definition handleDelete :: "bool \<Rightarrow> api_error + unit \<Rightarrow> int \<Rightarrow> ('d, unit) async" where
  "handleDelete confirmed delete_outcome ident =
     (if \<not> confirmed then resolve ()
      else try_catch
             (bind_async (await_api (ApiDelete ident) delete_outcome) (\<lambda>_.
              bind_async (setSnippets (\<lambda>prev. filter (\<lambda>s. snippetId s \<noteq> ident) prev)) (\<lambda>_.
              toast_success ''Snippet deleted'')))
             (\<lambda>error. toast_error ''Failed to delete snippet''))"

text \<open>
  \<open>handleSubmit\<close> of \<^verbatim>\<open>SnippetForm\<close>: \<open>editing\<close> is the prop \<^verbatim>\<open>snippet\<close> (present when the form
  edits an item), \<open>body\<close> the request body, \<open>save_outcome\<close> the outcome of
  \<^verbatim>\<open>snippetsApi.update\<close> or \<^verbatim>\<open>snippetsApi.create\<close>, \<open>onSuccess\<close> the callback prop.
\<close>

definition handleSubmit ::
  "snippet option \<Rightarrow> 'd \<Rightarrow> api_error + snippet \<Rightarrow> ('d, unit) async \<Rightarrow> ('d, unit) async" where
  "handleSubmit editing body save_outcome onSuccess =
     bind_async (setIsSubmitting True) (\<lambda>_.
       try_finally
         (try_catch
            (bind_async
               (case editing of
                  Some sn \<Rightarrow>
                    bind_async (await_api (ApiUpdate (snippetId sn) body) save_outcome) (\<lambda>_.
                    toast_success ''Snippet updated'')
                | None \<Rightarrow>
                    bind_async (await_api (ApiCreate body) save_outcome) (\<lambda>_.
                    toast_success ''Snippet created''))
               (\<lambda>_. onSuccess))
            (\<lambda>error. toast_error ''Failed to save snippet''))
         (setIsSubmitting False))"

text \<open>
  The two places where the page mounts the form: the create dialog passes
  \<^verbatim>\<open>() => { fetchSnippets(); closeDialog() }\<close>, a card passes
  \<^verbatim>\<open>() => { onUpdate(); closeEdit() }\<close> with \<^verbatim>\<open>onUpdate = fetchSnippets\<close>.
\<close>

definition createSnippet ::
  "'d \<Rightarrow> api_error + snippet \<Rightarrow> api_error + snippet list \<Rightarrow> ('d, unit) async" where
  "createSnippet body save_outcome getAll_outcome =
     handleSubmit None body save_outcome
       (bind_async (not_awaited (fetchSnippets getAll_outcome)) (\<lambda>_. closeDialog))"

definition updateSnippet ::
  "snippet \<Rightarrow> 'd \<Rightarrow> api_error + snippet \<Rightarrow> api_error + snippet list \<Rightarrow> ('d, unit) async" where
  "updateSnippet sn body save_outcome getAll_outcome =
     handleSubmit (Some sn) body save_outcome
       (bind_async (not_awaited (fetchSnippets getAll_outcome)) (\<lambda>_. closeEdit))"

definition page0 :: "string page_state" where
  "page0 = \<lparr>snippets = [item_foobar, item_bar], isLoading = False, isDialogOpen = False,
            isEditDialogOpen = False, isSubmitting = False, toasts = [], requests = []\<rparr>"

section \<open>Debounce primitive (src/hooks/index.ts, useDebounce)\<close>











section \<open>Properties of the filter\<close>









lemma textMatch_Inr:
  "textMatch lower q s =
     Inr (includes_str (lower (title s)) (lower q)
          \<or> (case description s of None \<Rightarrow> False | Some d \<Rightarrow> includes_str (lower d) (lower q))
          \<or> includes_str (lower (code s)) (lower q))"
  by (simp add: textMatch_def bind_js_def call_toLowerCase_def optional_chain_def
      split: option.splits)

lemma filter_js_pure:
  "(\<And>x. p x = Inr (P x)) \<Longrightarrow> filter_js p xs = Inr (filter P xs)"
  by (induction xs) (simp_all add: bind_js_def)

lemma filteredSnippets_filter:
  "filteredSnippets lower L q lang sel = Inr (filter (keeps lower q lang sel) L)"
proof -
  have t: "filter_js (textMatch lower q) xs = Inr (filter (\<lambda>s. includes_str (lower (title s)) (lower q)
          \<or> (case description s of None \<Rightarrow> False | Some d \<Rightarrow> includes_str (lower d) (lower q))
          \<or> includes_str (lower (code s)) (lower q)) xs)" for xs
    by (rule filter_js_pure) (rule textMatch_Inr)
  have l: "filter_js (languageMatch lang) xs = Inr (filter (\<lambda>s. language s = lang) xs)" for xs
    by (rule filter_js_pure) (simp add: languageMatch_def)
  have g: "filter_js (tagMatch sel) xs = Inr (filter (\<lambda>s. \<exists>t \<in> set sel. t \<in> set (tags s)) xs)" for xs
    by (rule filter_js_pure) (simp add: tagMatch_def list_ex_iff)
  show ?thesis
    unfolding filteredSnippets_def t l g
    by (cases "q = []"; cases "lang = str ''all''"; cases "sel = []";
        simp add: bind_js_def keeps_def [abs_def] conj_commute)
qed

lemma unguarded_call_throws: "call_toLowerCase lower None = Inl TypeError"
  by (simp add: call_toLowerCase_def)

text \<open>
  Claim C4. No call of the pipeline throws. With a non-empty selection the tag stage keeps
  exactly the items that carry at least one selected tag (OR across the selection), whatever
  the other two criteria are; an empty selection constrains nothing; an item with an empty
  tag array is processed like any other and is rejected by every non-empty selection.
\<close>

theorem tag_filter_or_semantics:
  "(selectedTags \<noteq> [] \<longrightarrow>
      (\<exists>r0. filteredSnippets lower L q lang [] = Inr r0
          \<and> filteredSnippets lower L q lang selectedTags =
              Inr (filter (\<lambda>s. \<exists>t \<in> set selectedTags. t \<in> set (tags s)) r0)))
   \<and> filteredSnippets lower L [] (str ''all'') [] = Inr L
   \<and> (selectedTags \<noteq> [] \<and> tags s = [] \<longrightarrow>
        (\<exists>r. filteredSnippets lower L q lang selectedTags = Inr r \<and> s \<notin> set r))"
  by (auto simp: filteredSnippets_filter keeps_def [abs_def] intro: filter_cong)

theorem tag_filter_or_semantics_witness:
  "[str ''react'', str ''hooks''] \<noteq> ([] :: jsstring list)
   \<and> filter (\<lambda>s. \<exists>t \<in> set [str ''react'', str ''hooks'']. t \<in> set (tags s))
        [item_vue, item_hooks, item_foobar] = [item_hooks]
   \<and> tags item_foobar = []
   \<and> filteredSnippets toLowerCase_fragment [item_vue, item_hooks, item_foobar] [] (str ''all'')
        [str ''react'', str ''hooks''] = Inr [item_hooks]
   \<and> item_foobar \<notin> set [item_hooks]"
proof -
  have ne: "[str ''react'', str ''hooks''] \<noteq> ([] :: jsstring list)" by simp
  have l: "filteredSnippets toLowerCase_fragment [item_vue, item_hooks, item_foobar] []
             (str ''all'') [str ''react'', str ''hooks''] = Inr [item_hooks]"
    by code_simp
  have r: "filteredSnippets toLowerCase_fragment [item_vue, item_hooks, item_foobar] []
             (str ''all'') [] = Inr [item_vue, item_hooks, item_foobar]"
    by code_simp
  have e: "tags item_foobar = []" by code_simp
  note T = tag_filter_or_semantics [where selectedTags = "[str ''react'', str ''hooks'']"
      and lower = toLowerCase_fragment
      and L = "[item_vue, item_hooks, item_foobar]" and q = "[]" and lang = "str ''all''"
      and s = item_foobar]
  from T ne have f: "filter (\<lambda>s. \<exists>t \<in> set [str ''react'', str ''hooks'']. t \<in> set (tags s))
        [item_vue, item_hooks, item_foobar] = [item_hooks]"
    unfolding l r sum.inject by metis
  from T ne e have g: "item_foobar \<notin> set [item_hooks]"
    unfolding l r sum.inject by metis
  from ne f e l g show ?thesis by (intro conjI)
qed






text \<open>
  Claim C6. For every list and every criteria the pipeline returns a list that is a
  subsequence of the source list: each element of the result occurs in the source, in the
  same relative order.
\<close>

theorem filtered_is_subsequence:
  "\<exists>r. filteredSnippets lower L q lang sel = Inr r \<and> subseq r L \<and> set r \<subseteq> set L"
  by (simp add: filteredSnippets_filter)

theorem filtered_is_subsequence_witness:
  "subseq [item_hooks] [item_vue, item_hooks, item_foobar]
   \<and> set [item_hooks] \<subseteq> set [item_vue, item_hooks, item_foobar]"
proof -
  have l: "filteredSnippets toLowerCase_fragment [item_vue, item_hooks, item_foobar] []
             (str ''all'') [str ''react'', str ''hooks''] = Inr [item_hooks]"
    by code_simp
  from filtered_is_subsequence [where lower = toLowerCase_fragment
      and L = "[item_vue, item_hooks, item_foobar]"
      and q = "[]" and lang = "str ''all''" and sel = "[str ''react'', str ''hooks'']"]
  show ?thesis unfolding l sum.inject by metis
qed

text \<open>
  Claim C10. Filtering never throws, whatever the list, the criteria and the case tables
  are, also when items have no description: the optional chain keeps \<^verbatim>\<open>toLowerCase\<close> from
  being called on \<^verbatim>\<open>undefined\<close>. For an item without description the text callback returns
  whether the lower-cased search text occurs in the lower-cased title or code, and the item
  is kept exactly when it is in the source list and meets this (or the search text is
  empty), the category criterion and the tag criterion.
\<close>

theorem filter_total_without_description:
  "(\<exists>r. filteredSnippets lower L q lang sel = Inr r)
   \<and> (description s = None \<longrightarrow>
        textMatch lower q s =
          Inr (includes_str (lower (title s)) (lower q)
               \<or> includes_str (lower (code s)) (lower q)))
   \<and> (description s = None \<longrightarrow>
        (\<exists>r. filteredSnippets lower L q lang sel = Inr r
           \<and> (s \<in> set r \<longleftrightarrow>
                 s \<in> set L
                 \<and> (q = [] \<or> includes_str (lower (title s)) (lower q)
                      \<or> includes_str (lower (code s)) (lower q))
                 \<and> (lang = str ''all'' \<or> language s = lang)
                 \<and> (sel = [] \<or> (\<exists>t \<in> set sel. t \<in> set (tags s))))))"
  by (auto simp: filteredSnippets_filter keeps_def [abs_def] textMatch_Inr)

theorem filter_total_without_description_witness:
  "description item_nodesc = None
   \<and> textMatch toLowerCase_fragment (str ''oo'') item_nodesc = Inr True
   \<and> filteredSnippets toLowerCase_fragment [item_nodesc, item_vue] (str ''oo'')
        (str ''javascript'') [] = Inr [item_nodesc]
   \<and> (includes_str (toLowerCase_fragment (title item_nodesc)) (toLowerCase_fragment (str ''oo''))
        \<or> includes_str (toLowerCase_fragment (code item_nodesc)) (toLowerCase_fragment (str ''oo'')))"
proof -
  have d: "description item_nodesc = None" by code_simp
  have l: "filteredSnippets toLowerCase_fragment [item_nodesc, item_vue] (str ''oo'')
        (str ''javascript'') [] = Inr [item_nodesc]"
    by code_simp
  have t: "textMatch toLowerCase_fragment (str ''oo'') item_nodesc = Inr True" by code_simp
  note T = filter_total_without_description [where lower = toLowerCase_fragment
      and L = "[item_nodesc, item_vue]" and q = "str ''oo''" and lang = "str ''javascript''"
      and sel = "[]" and s = item_nodesc]
  from T d have "includes_str (toLowerCase_fragment (title item_nodesc))
            (toLowerCase_fragment (str ''oo''))
        \<or> includes_str (toLowerCase_fragment (code item_nodesc)) (toLowerCase_fragment (str ''oo''))"
    unfolding t by simp
  with d t l show ?thesis by (intro conjI)
qed

section \<open>Properties of the pagination engine\<close>

lemma totalPages_div:
  "totalPages (usePagination items p page) = - ((- int (length items)) div p)"
  using ceiling_divide_eq_div [of "int (length items)" p]
  by (simp add: usePagination_def Let_def)

lemma totalPages_page_irrelevant:
  "totalPages (usePagination items p page) = totalPages (usePagination items p page')"
  by (simp add: usePagination_def Let_def)

lemma totalPages_bounds:
  assumes "0 < p"
  shows "int (length items) \<le> totalPages (usePagination items p page) * p"
    and "(totalPages (usePagination items p page) - 1) * p < int (length items)"
proof -
  define n where "n = int (length items)"
  define d where "d = (- n) div p"
  define m where "m = (- n) mod p"
  have t: "totalPages (usePagination items p page) = - d"
    by (simp add: totalPages_div d_def n_def)
  have "d * p + m = - n"
    unfolding d_def m_def by (rule div_mult_mod_eq)
  moreover have "0 \<le> m" "m < p"
    using assms by (simp_all add: m_def)
  ultimately have "n \<le> (- d) * p" "(- d - 1) * p < n"
    by (simp_all add: algebra_simps)
  then show "int (length items) \<le> totalPages (usePagination items p page) * p"
    and "(totalPages (usePagination items p page) - 1) * p < int (length items)"
    by (simp_all add: t n_def)
qed

lemma totalPages_least:
  assumes "0 < p" and "int (length items) \<le> k * p"
  shows "totalPages (usePagination items p page) \<le> k"
proof (rule ccontr)
  assume "\<not> totalPages (usePagination items p page) \<le> k"
  then have "k \<le> totalPages (usePagination items p page) - 1" by simp
  then have "k * p \<le> (totalPages (usePagination items p page) - 1) * p"
    using assms(1) by (intro mult_right_mono) auto
  with totalPages_bounds(2) [OF assms(1), of items page] assms(2) show False by linarith
qed

lemma goToPage_bounds:
  "1 \<le> goToPage view n \<and> goToPage view n \<le> max 1 (totalPages view)"
  by (auto simp: goToPage_def)

lemma step_navigation_bounds:
  assumes "is_navigation e"
  shows "fst (pagination_step p (items, page) e) = items"
    and "1 \<le> snd (pagination_step p (items, page) e)"
    and "snd (pagination_step p (items, page) e)
           \<le> max 1 (totalPages (usePagination items p page'))"
  using assms goToPage_bounds [of "usePagination items p page"]
    totalPages_page_irrelevant [of items p page page']
  by (cases e; auto simp: nextPage_def prevPage_def goToPage_def)+

lemma step_lower_bound:
  "1 \<le> snd st \<Longrightarrow> 1 \<le> snd (pagination_step p st e)"
  by (cases st; cases e) (auto simp: nextPage_def prevPage_def goToPage_def)

lemma run_lower_bound: "1 \<le> snd (pagination_run p items events)"
  unfolding pagination_run_def
  by (induction events rule: rev_induct) (auto intro: step_lower_bound)

lemma slice_past_end:
  "int (length xs) \<le> start \<Longrightarrow> slice xs start fin = []"
  by (auto simp: slice_def Let_def)

lemma window_past_last_page:
  assumes "0 < p" "totalPages (usePagination items p page) < page"
  shows "paginatedItems (usePagination items p page) = []"
proof -
  have "int (length items) \<le> totalPages (usePagination items p page) * p"
    using totalPages_bounds(1) [OF assms(1)] .
  also have "\<dots> \<le> (page - 1) * p"
    using assms by (intro mult_right_mono) auto
  finally have "int (length items) \<le> (page - 1) * p" .
  then show ?thesis
    by (simp add: usePagination_def Let_def slice_past_end)
qed

lemma run_navigation_invariant:
  assumes "\<forall>e \<in> set events. is_navigation e"
  shows "fst (pagination_run p L events) = L
       \<and> snd (pagination_run p L events) \<le> max 1 (totalPages (usePagination L p 1))"
  using assms unfolding pagination_run_def
proof (induction events rule: rev_induct)
  case Nil
  then show ?case by simp
next
  case (snoc e es)
  obtain items c where st: "foldl (pagination_step p) (L, 1) es = (items, c)"
    by (cases "foldl (pagination_step p) (L, 1) es")
  from snoc have items: "items = L" and nav: "is_navigation e" by (auto simp: st)
  show ?case
    using step_navigation_bounds(1) [OF nav, where p = p and items = L and page = c]
      step_navigation_bounds(3) [OF nav, where p = p and items = L and page = c and page' = 1]
    by (simp add: st items)
qed

text \<open>
  Claim C7. For every list and every positive page size, starting from page 1, after any
  finite sequence of \<open>goToPage\<close>, \<open>nextPage\<close> and \<open>prevPage\<close> calls the current page lies
  between 1 and the maximum of 1 and the ceiling of length / page size. \<open>goToPage\<close> has no
  failing case, it clamps: its result lies between 1 and the maximum of 1 and the page
  count; it is its argument whenever that argument is within 1 and the page count, it is 1
  for every argument below 1, it is the page count for every argument above a page count of
  at least 1, and it is 1 when the page count is 0. \<open>nextPage\<close> and \<open>prevPage\<close> are \<open>goToPage\<close>
  at the current page plus and minus 1.
\<close>

theorem navigation_keeps_page_in_range:
  assumes "0 < p" and "\<forall>e \<in> set events. is_navigation e"
  shows "1 \<le> snd (pagination_run p L events)
       \<and> snd (pagination_run p L events) \<le> max 1 \<lceil>real (length L) / real_of_int p\<rceil>
       \<and> 1 \<le> goToPage (usePagination L p page) n
       \<and> goToPage (usePagination L p page) n \<le> max 1 (totalPages (usePagination L p page))
       \<and> (1 \<le> n \<and> n \<le> totalPages (usePagination L p page)
            \<longrightarrow> goToPage (usePagination L p page) n = n)
       \<and> (n < 1 \<longrightarrow> goToPage (usePagination L p page) n = 1)
       \<and> (1 \<le> totalPages (usePagination L p page) \<and> totalPages (usePagination L p page) < n
            \<longrightarrow> goToPage (usePagination L p page) n = totalPages (usePagination L p page))
       \<and> (totalPages (usePagination L p page) < 1 \<longrightarrow> goToPage (usePagination L p page) n = 1)
       \<and> nextPage (usePagination L p page) = goToPage (usePagination L p page) (page + 1)
       \<and> prevPage (usePagination L p page) = goToPage (usePagination L p page) (page - 1)"
proof -
  have "totalPages (usePagination L p 1) = \<lceil>real (length L) / real_of_int p\<rceil>"
    by (simp add: usePagination_def Let_def)
  moreover have "currentPage (usePagination L p page) = page"
    by (simp add: usePagination_def Let_def)
  then have "nextPage (usePagination L p page) = goToPage (usePagination L p page) (page + 1)"
    "prevPage (usePagination L p page) = goToPage (usePagination L p page) (page - 1)"
    by (simp_all add: nextPage_def prevPage_def)
  ultimately show ?thesis
    using run_navigation_invariant [OF assms(2), of p L]
      run_lower_bound [of p L events] goToPage_bounds [of "usePagination L p page" n]
    by (auto simp: goToPage_def)
qed

theorem navigation_keeps_page_in_range_witness:
  "(0::int) < 9
   \<and> list_all is_navigation
         [NextPage, NextPage, NextPage, PrevPage, GoToPage (- 4), GoToPage 7 :: nat pagination_event]
   \<and> snd (pagination_run 9 ten_items [NextPage, NextPage, NextPage, PrevPage, GoToPage (- 4), GoToPage 7]) = 2
   \<and> max 1 \<lceil>real (length ten_items) / real_of_int 9\<rceil> = 2
   \<and> goToPage (usePagination ten_items 9 1) 7 = 2
   \<and> goToPage (usePagination ten_items 9 1) 2 = 2
   \<and> goToPage (usePagination ten_items 9 1) (- 4) = 1"
proof -
  have p: "(0::int) < 9" by simp
  have nav: "\<forall>e \<in> set [NextPage, NextPage, NextPage, PrevPage, GoToPage (- 4), GoToPage 7 :: nat pagination_event].
         is_navigation e" by simp
  have r: "snd (pagination_run 9 ten_items [NextPage, NextPage, NextPage, PrevPage, GoToPage (- 4), GoToPage 7]) = 2"
    by code_simp
  have m: "max 1 \<lceil>real (length ten_items) / real_of_int 9\<rceil> = 2" by code_simp
  have t: "totalPages (usePagination ten_items 9 1) = 2" by code_simp
  from navigation_keeps_page_in_range [OF p nav, where L = ten_items and page = 1 and n = 7]
  have g: "goToPage (usePagination ten_items 9 1) 7 = 2"
    unfolding t by simp
  from navigation_keeps_page_in_range [OF p nav, where L = ten_items and page = 1 and n = 2]
  have "goToPage (usePagination ten_items 9 1) 2 = 2"
    unfolding t by simp
  moreover
  from navigation_keeps_page_in_range [OF p nav, where L = ten_items and page = 1 and n = "- 4"]
  have "goToPage (usePagination ten_items 9 1) (- 4) = 1"
    by simp
  moreover have "list_all is_navigation
         [NextPage, NextPage, NextPage, PrevPage, GoToPage (- 4), GoToPage 7 :: nat pagination_event]"
    by simp
  ultimately show ?thesis using p r m g by (intro conjI)
qed

text \<open>
  Claim C3, as the code has it. For every list of length n and every positive page size p
  the page count is the ceiling of n / p: the least k with n \<le> k * p. For the empty list it
  is 0, not 1: the item window is empty and the current page stays at 1 under every
  sequence of navigation calls.
\<close>

theorem total_pages_is_ceiling:
  assumes "0 < p"
  shows "int (length items) \<le> totalPages (usePagination items p page) * p
       \<and> (totalPages (usePagination items p page) - 1) * p < int (length items)
       \<and> (\<forall>k. int (length items) \<le> k * p \<longrightarrow> totalPages (usePagination items p page) \<le> k)
       \<and> totalPages (usePagination items p page) = \<lceil>real (length items) / real_of_int p\<rceil>
       \<and> (items = [] \<longrightarrow> totalPages (usePagination items p page) = 0
                       \<and> paginatedItems (usePagination items p page) = [])
       \<and> (items = [] \<and> (\<forall>e \<in> set events. is_navigation e)
            \<longrightarrow> snd (pagination_run p items events) = 1)"
proof -
  have e: "items = [] \<longrightarrow> totalPages (usePagination items p page) = 0
                       \<and> paginatedItems (usePagination items p page) = []"
    by (simp add: usePagination_def Let_def slice_def)
  have "snd (pagination_run p items events) = 1"
    if "items = []" "\<forall>e \<in> set events. is_navigation e"
  proof -
    have "totalPages (usePagination items p 1) = 0"
      using that(1) by (simp add: usePagination_def Let_def)
    with run_navigation_invariant [OF that(2), of p items] run_lower_bound [of p items events]
    show ?thesis by simp
  qed
  with e have "(items = [] \<longrightarrow> totalPages (usePagination items p page) = 0
                       \<and> paginatedItems (usePagination items p page) = [])
       \<and> (items = [] \<and> (\<forall>e \<in> set events. is_navigation e)
            \<longrightarrow> snd (pagination_run p items events) = 1)"
    by blast
  moreover have "totalPages (usePagination items p page) = \<lceil>real (length items) / real_of_int p\<rceil>"
    by (simp add: usePagination_def Let_def)
  ultimately show ?thesis
    using totalPages_bounds [OF assms, of items page] totalPages_least [OF assms, of items _ page]
    by blast
qed

theorem total_pages_is_ceiling_witness:
  "(0::int) < 9
   \<and> int (length ten_items) \<le> 2 * 9 \<and> (2 - 1) * 9 < int (length ten_items)
   \<and> totalPages (usePagination ten_items 9 1) = 2
   \<and> ([] :: nat list) = []
   \<and> totalPages (usePagination ([] :: nat list) 9 1) = 0
   \<and> paginatedItems (usePagination ([] :: nat list) 9 1) = []
   \<and> list_all is_navigation [NextPage, GoToPage 3 :: nat pagination_event]
   \<and> snd (pagination_run 9 ([] :: nat list) [NextPage, GoToPage 3]) = 1"
proof -
  have nav: "\<forall>e \<in> set [NextPage, GoToPage 3 :: nat pagination_event]. is_navigation e"
    by simp
  have p: "(0::int) < 9" by simp
  have t: "totalPages (usePagination ten_items 9 1) = 2" by code_simp
  note T = total_pages_is_ceiling [OF p, where items = ten_items and page = 1]
  note E = total_pages_is_ceiling [OF p, where items = "[] :: nat list" and page = 1
      and events = "[NextPage, GoToPage 3]"]
  from T have "int (length ten_items) \<le> 2 * 9" "(2 - 1) * 9 < int (length ten_items)"
    unfolding t by blast+
  moreover from E have "totalPages (usePagination ([] :: nat list) 9 1) = 0"
    "paginatedItems (usePagination ([] :: nat list) 9 1) = []" by blast+
  moreover from E nav have "snd (pagination_run 9 ([] :: nat list) [NextPage, GoToPage 3]) = 1"
    by blast
  moreover have "list_all is_navigation [NextPage, GoToPage 3 :: nat pagination_event]"
    by simp
  ultimately show ?thesis using p t by (intro conjI) simp_all
qed

theorem empty_list_has_no_page_counterexample:
  "totalPages (usePagination ([] :: nat list) 9 1) \<noteq> 1"
  by (simp add: usePagination_def)


text \<open>
  Claim C1, as the code has it. For every positive page size the current page never drops
  below 1, and every navigation call (\<open>goToPage\<close>, \<open>nextPage\<close>, \<open>prevPage\<close>) brings it between
  1 and the maximum of 1 and the page count of the list of that render. Rendering the hook
  with another list does not write the state cell: the current page keeps its value, and
  when the page count of the new list is below it the item window is empty.
\<close>

theorem page_reclamped_only_by_navigation:
  assumes "0 < p"
  shows "1 \<le> snd (pagination_run p L events)
       \<and> pagination_step p (items, page) (SetItems items') = (items', page)
       \<and> currentPage (pagination_view p (items', page)) = page
       \<and> (is_navigation e \<longrightarrow>
            1 \<le> snd (pagination_step p (items, page) e)
            \<and> snd (pagination_step p (items, page) e)
                 \<le> max 1 (totalPages (pagination_view p (pagination_step p (items, page) e))))
       \<and> (totalPages (pagination_view p (items', page)) < page
            \<longrightarrow> paginatedItems (pagination_view p (items', page)) = [])"
proof -
  have nav: "1 \<le> snd (pagination_step p (items, page) e)
            \<and> snd (pagination_step p (items, page) e)
                 \<le> max 1 (totalPages (pagination_view p (pagination_step p (items, page) e)))"
    if "is_navigation e"
    using step_navigation_bounds(1) [OF that, where p = p and items = items and page = page]
      step_navigation_bounds(2) [OF that, where p = p and items = items and page = page]
      step_navigation_bounds(3) [OF that, where p = p and items = items and page = page
        and page' = "snd (pagination_step p (items, page) e)"]
    by (simp add: pagination_view_def)
  have "currentPage (pagination_view p (items', page)) = page"
    by (simp add: pagination_view_def usePagination_def Let_def)
  with nav run_lower_bound [of p L events] window_past_last_page [OF assms, of items' page]
  show ?thesis by (simp add: pagination_view_def)
qed

theorem page_reclamped_only_by_navigation_witness:
  "(0::int) < 9
   \<and> pagination_run 9 ten_items [GoToPage 2] = (ten_items, 2)
   \<and> pagination_step 9 (ten_items, 2) (SetItems three_items) = (three_items, 2)
   \<and> totalPages (pagination_view 9 (three_items, 2)) < 2
   \<and> paginatedItems (pagination_view 9 (three_items, 2)) = []
   \<and> is_navigation (PrevPage :: nat pagination_event)
   \<and> pagination_step 9 (three_items, 2) PrevPage = (three_items, 1)
   \<and> paginatedItems (pagination_view 9 (three_items, 1)) = three_items"
proof -
  have p: "(0::int) < 9" by simp
  have r: "pagination_run 9 ten_items [GoToPage 2] = (ten_items, 2)" by code_simp
  have t: "totalPages (pagination_view 9 (three_items, 2)) < 2" by code_simp
  have n: "is_navigation (PrevPage :: nat pagination_event)" by simp
  have s: "pagination_step 9 (three_items, 2) PrevPage = (three_items, 1)" by code_simp
  have w: "paginatedItems (pagination_view 9 (three_items, 1)) = three_items" by code_simp
  note T = page_reclamped_only_by_navigation [OF p, where L = ten_items
      and events = "[GoToPage 2]" and items = ten_items and page = 2 and items' = three_items
      and e = PrevPage]
  from T have a: "pagination_step 9 (ten_items, 2) (SetItems three_items) = (three_items, 2)"
    by blast
  from T t have b: "paginatedItems (pagination_view 9 (three_items, 2)) = []"
    by blast
  from p r a t b n s w show ?thesis by (intro conjI)
qed

theorem shrunk_list_leaves_page_out_of_range_counterexample:
  "\<not> (1 \<le> currentPage (pagination_view 9 shrink_scenario)
       \<and> currentPage (pagination_view 9 shrink_scenario)
            \<le> totalPages (pagination_view 9 shrink_scenario))
   \<and> fst shrink_scenario = three_items
   \<and> currentPage (pagination_view 9 shrink_scenario) = 2
   \<and> totalPages (pagination_view 9 shrink_scenario) = 1
   \<and> paginatedItems (pagination_view 9 shrink_scenario) = []"
  by code_simp

section \<open>Properties of the orchestration\<close>

lemma handleDelete_rejected:
  "handleDelete True (Inl err) ident st
     = (Inr (), st\<lparr>requests := requests st @ [ApiDelete ident],
                    toasts := toasts st @ [ToastError ''Failed to delete snippet'']\<rparr>)"
  by (simp add: handleDelete_def try_catch_def bind_async_def await_api_def toast_error_def)

lemma handleDelete_fulfilled:
  "handleDelete True (Inr ()) ident st
     = (Inr (), st\<lparr>requests := requests st @ [ApiDelete ident],
                    snippets := filter (\<lambda>s. snippetId s \<noteq> ident) (snippets st),
                    toasts := toasts st @ [ToastSuccess ''Snippet deleted'']\<rparr>)"
  by (simp add: handleDelete_def try_catch_def bind_async_def await_api_def toast_success_def
      setSnippets_def)

lemma fetchSnippets_fulfilled:
  "fetchSnippets (Inr fresh) st
     = (Inr (), st\<lparr>isLoading := False, requests := requests st @ [ApiGetAll], snippets := fresh\<rparr>)"
  by (simp add: fetchSnippets_def try_finally_def try_catch_def bind_async_def await_api_def
      setSnippets_def setIsLoading_def)

lemma fetchSnippets_rejected:
  "fetchSnippets (Inl err) st
     = (Inr (), st\<lparr>isLoading := False, requests := requests st @ [ApiGetAll],
                    toasts := toasts st @ [ToastError ''Failed to load snippets'']\<rparr>)"
  by (simp add: fetchSnippets_def try_finally_def try_catch_def bind_async_def await_api_def
      toast_error_def setIsLoading_def)

lemma createSnippet_fulfilled:
  "createSnippet body (Inr echoed) getAll_outcome st
     = (case fetchSnippets getAll_outcome
               (st\<lparr>isSubmitting := True, requests := requests st @ [ApiCreate body],
                   toasts := toasts st @ [ToastSuccess ''Snippet created'']\<rparr>)
        of (r, st') \<Rightarrow> (Inr (), st'\<lparr>isDialogOpen := False, isSubmitting := False\<rparr>))"
  by (simp add: createSnippet_def handleSubmit_def try_finally_def try_catch_def bind_async_def
      await_api_def toast_success_def setIsSubmitting_def not_awaited_def closeDialog_def
      split: prod.splits)

lemma updateSnippet_fulfilled:
  "updateSnippet sn body (Inr echoed) getAll_outcome st
     = (case fetchSnippets getAll_outcome
               (st\<lparr>isSubmitting := True, requests := requests st @ [ApiUpdate (snippetId sn) body],
                   toasts := toasts st @ [ToastSuccess ''Snippet updated'']\<rparr>)
        of (r, st') \<Rightarrow> (Inr (), st'\<lparr>isEditDialogOpen := False, isSubmitting := False\<rparr>))"
  by (simp add: updateSnippet_def handleSubmit_def try_finally_def try_catch_def bind_async_def
      await_api_def toast_success_def setIsSubmitting_def not_awaited_def closeEdit_def
      split: prod.splits)


text \<open>
  Claim C8. When the user has confirmed and the external API rejects the delete, the
  handler's promise is still fulfilled (the rejection is caught), the list of snippets is
  the one before the call, and exactly one failure toast is added.
\<close>

theorem rejected_delete_leaves_list_unchanged:
  assumes "confirmed" and "delete_outcome = Inl err"
  shows "fst (handleDelete confirmed delete_outcome ident st) = Inr ()
       \<and> snippets (snd (handleDelete confirmed delete_outcome ident st)) = snippets st
       \<and> toasts (snd (handleDelete confirmed delete_outcome ident st))
            = toasts st @ [ToastError ''Failed to delete snippet'']"
  using assms by (simp add: handleDelete_rejected)

theorem rejected_delete_leaves_list_unchanged_witness:
  "handleDelete True (Inl ServerError) 1 page0
     = (Inr (), page0\<lparr>toasts := [ToastError ''Failed to delete snippet''],
                       requests := [ApiDelete 1]\<rparr>)
   \<and> snippets (snd (handleDelete True (Inl ServerError) 1 page0)) = [item_foobar, item_bar]
   \<and> toasts (snd (handleDelete True (Inl ServerError) 1 page0))
        = [ToastError ''Failed to delete snippet'']"
proof -
  have e: "handleDelete True (Inl ServerError) 1 page0
     = (Inr (), page0\<lparr>toasts := [ToastError ''Failed to delete snippet''],
                       requests := [ApiDelete 1]\<rparr>)"
    by (simp add: handleDelete_def try_catch_def bind_async_def await_api_def toast_error_def
        page0_def)
  have s0: "snippets page0 = [item_foobar, item_bar]" and t0: "toasts page0 = []"
    by (simp_all add: page0_def)
  from rejected_delete_leaves_list_unchanged [of True "Inl ServerError" ServerError 1 page0]
  have "snippets (snd (handleDelete True (Inl ServerError) 1 page0)) = [item_foobar, item_bar]"
    and "toasts (snd (handleDelete True (Inl ServerError) 1 page0))
        = [ToastError ''Failed to delete snippet'']"
    unfolding s0 t0 by simp_all
  with e show ?thesis by (intro conjI)
qed

text \<open>
  Claim C2, as the code has it. A successful create or update is followed by a full re-fetch:
  the request after the mutation is \<open>ApiGetAll\<close>, and when it is fulfilled the list becomes
  the fetched one, whatever it was before. A successful delete sends no further request: the
  handler removes the items with the deleted id from the list it holds.
\<close>

theorem mutation_refresh:
  "requests (snd (createSnippet body (Inr echoed) getAll_outcome st))
     = requests st @ [ApiCreate body, ApiGetAll]
   \<and> requests (snd (updateSnippet sn body (Inr echoed) getAll_outcome st))
     = requests st @ [ApiUpdate (snippetId sn) body, ApiGetAll]
   \<and> (getAll_outcome = Inr fresh \<longrightarrow>
        snippets (snd (createSnippet body (Inr echoed) getAll_outcome st)) = fresh
        \<and> snippets (snd (updateSnippet sn body (Inr echoed) getAll_outcome st)) = fresh)
   \<and> requests (snd (handleDelete True (Inr ()) ident st)) = requests st @ [ApiDelete ident]
   \<and> snippets (snd (handleDelete True (Inr ()) ident st))
     = filter (\<lambda>s. snippetId s \<noteq> ident) (snippets st)"
proof -
  have "requests (snd (createSnippet body (Inr echoed) getAll_outcome st))
     = requests st @ [ApiCreate body, ApiGetAll]"
    by (cases getAll_outcome)
      (simp_all add: createSnippet_fulfilled fetchSnippets_fulfilled fetchSnippets_rejected)
  moreover have "requests (snd (updateSnippet sn body (Inr echoed) getAll_outcome st))
     = requests st @ [ApiUpdate (snippetId sn) body, ApiGetAll]"
    by (cases getAll_outcome)
      (simp_all add: updateSnippet_fulfilled fetchSnippets_fulfilled fetchSnippets_rejected)
  moreover have "getAll_outcome = Inr fresh \<longrightarrow>
        snippets (snd (createSnippet body (Inr echoed) getAll_outcome st)) = fresh
        \<and> snippets (snd (updateSnippet sn body (Inr echoed) getAll_outcome st)) = fresh"
    by (simp add: createSnippet_fulfilled updateSnippet_fulfilled fetchSnippets_fulfilled)
  moreover have "requests (snd (handleDelete True (Inr ()) ident st))
       = requests st @ [ApiDelete ident]"
    and "snippets (snd (handleDelete True (Inr ()) ident st))
       = filter (\<lambda>s. snippetId s \<noteq> ident) (snippets st)"
    by (simp_all add: handleDelete_fulfilled)
  ultimately show ?thesis by blast
qed

theorem mutation_refresh_witness:
  "snippets (snd (createSnippet ''body'' (Inr item_vue) (Inr [item_foobar, item_bar, item_vue])
       page0)) = [item_foobar, item_bar, item_vue]
   \<and> requests (snd (createSnippet ''body'' (Inr item_vue) (Inr [item_foobar, item_bar, item_vue])
       page0)) = [ApiCreate ''body'', ApiGetAll]
   \<and> snippets (snd (handleDelete True (Inr ()) 1 page0)) = [item_bar]
   \<and> requests (snd (handleDelete True (Inr ()) 1 page0)) = [ApiDelete 1]"
proof -
  have f: "filter (\<lambda>s. snippetId s \<noteq> 1) (snippets page0) = [item_bar]" by code_simp
  have r0: "requests page0 = []" by (simp add: page0_def)
  note T = mutation_refresh [where body = "''body''" and echoed = item_vue
      and getAll_outcome = "Inr [item_foobar, item_bar, item_vue]" and st = page0
      and fresh = "[item_foobar, item_bar, item_vue]" and ident = 1]
  from T show ?thesis unfolding f r0 by simp
qed

theorem delete_patches_locally_counterexample:
  "ApiGetAll \<notin> set (requests (snd (handleDelete True (Inr ()) 1 page0)))
   \<and> snippets page0 = [item_foobar, item_bar]
   \<and> snippets (snd (handleDelete True (Inr ()) 1 page0)) = [item_bar]"
  by code_simp

section \<open>Properties of the debounce primitive\<close>














end
